theory Spec2Isabelle
  imports Complex_Main "HOL-Library.AList"
begin

section \<open>Pose model (moving\_left\_and\_right\_legs.py, lines 21-117)\<close>

text \<open>
  A Python dict is an association list in insertion order with pairwise distinct keys.
  The keys that reach the pose functions are integers (servo ids) or strings (the names
  of keyword arguments); an integer never equals a string in Python, which is what the
  two constructors of \<open>key\<close> say. Angles and deltas are Python floats and ints; they are
  modelled as exact reals (IEEE rounding is not modelled).
\<close>

datatype key = IntKey int | StrKey string

type_synonym pose = "(key \<times> real) list"

definition LEFT_ANKLE :: key where "LEFT_ANKLE = IntKey 40"
definition LEFT_KNEE :: key where "LEFT_KNEE = IntKey 10"
definition LEFT_HIP :: key where "LEFT_HIP = IntKey 20"
definition RIGHT_ANKLE :: key where "RIGHT_ANKLE = IntKey 30"
definition RIGHT_KNEE :: key where "RIGHT_KNEE = IntKey 60"
definition RIGHT_HIP :: key where "RIGHT_HIP = IntKey 50"

definition NEUTRAL :: pose where
  "NEUTRAL =
     [(LEFT_HIP, 215.3), (LEFT_KNEE, 123.6), (LEFT_ANKLE, 123.1),
      (RIGHT_HIP, 234.0), (RIGHT_KNEE, 107.3), (RIGHT_ANKLE, 177.4)]"

text \<open>Line 88: \<^verbatim>\<open>angle = max(0.0, min(240.0, angle))\<close>.\<close>

definition clamp_angle :: "real \<Rightarrow> real" where
  "clamp_angle angle = max 0.0 (min 240.0 angle)"

text \<open>\<^verbatim>\<open>sid in pose\<close>.\<close>

definition has_key :: "key \<Rightarrow> pose \<Rightarrow> bool" where
  "has_key sid pose = (sid \<in> set (map fst pose))"

text \<open>
  The loop of lines 110-112 (and 114-116): \<^verbatim>\<open>if sid in pose: pose[sid] = NEUTRAL[sid] + delta\<close>.
  The module global \<open>NEUTRAL\<close> is the parameter \<open>base\<close>. The subscript \<^verbatim>\<open>NEUTRAL[sid]\<close>
  cannot raise KeyError: it is guarded by \<^verbatim>\<open>sid in pose\<close> and \<open>pose\<close> has the keys of
  \<open>base\<close> throughout (lemma \<open>keys_apply_deltas\<close>), so \<open>the\<close> is only applied to \<open>Some\<close>.
\<close>

fun apply_deltas :: "pose \<Rightarrow> (key \<times> real) list \<Rightarrow> pose \<Rightarrow> pose" where
  "apply_deltas base [] pose = pose"
| "apply_deltas base ((sid, delta) # rest) pose =
     apply_deltas base rest
       (if has_key sid pose
        then AList.update sid (the (map_of base sid) + delta) pose
        else pose)"

text \<open>
  \<^verbatim>\<open>pose_from_neutral(deltas_dict=None, **deltas)\<close>: \<open>pose = dict(NEUTRAL)\<close>, then one of
  the two loops. Keyword arguments always have string names.
\<close>

definition kwargs_items :: "(string \<times> real) list \<Rightarrow> (key \<times> real) list" where
  "kwargs_items deltas = map (\<lambda>(name, delta). (StrKey name, delta)) deltas"

definition pose_from_base ::
  "pose \<Rightarrow> (key \<times> real) list option \<Rightarrow> (string \<times> real) list \<Rightarrow> pose" where
  "pose_from_base base deltas_dict deltas =
     (case deltas_dict of
        Some d \<Rightarrow> apply_deltas base d base
      | None \<Rightarrow> apply_deltas base (kwargs_items deltas) base)"

definition pose_from_neutral ::
  "(key \<times> real) list option \<Rightarrow> (string \<times> real) list \<Rightarrow> pose" where
  "pose_from_neutral deltas_dict deltas = pose_from_base NEUTRAL deltas_dict deltas"

subsection \<open>Choreography data (lines 125-201 and 257-374)\<close>

definition LEFT_LEG_STEP_SEQUENCE :: "pose list" where
  "LEFT_LEG_STEP_SEQUENCE =
     [pose_from_neutral (Some [(RIGHT_HIP, 0), (RIGHT_KNEE, 0), (RIGHT_ANKLE, 0),
                               (LEFT_HIP, 0), (LEFT_KNEE, 50), (LEFT_ANKLE, -40)]) [],
      pose_from_neutral (Some [(RIGHT_HIP, 0), (RIGHT_KNEE, 0), (RIGHT_ANKLE, 0),
                               (LEFT_HIP, 0), (LEFT_KNEE, 30), (LEFT_ANKLE, -20)]) [],
      pose_from_neutral (Some [(RIGHT_HIP, 0), (RIGHT_KNEE, 0), (RIGHT_ANKLE, 0),
                               (LEFT_HIP, 0), (LEFT_KNEE, 10), (LEFT_ANKLE, 0)]) [],
      NEUTRAL]"

definition RIGHT_LEG_STEP_SEQUENCE :: "pose list" where
  "RIGHT_LEG_STEP_SEQUENCE =
     [pose_from_neutral (Some [(RIGHT_HIP, 0), (RIGHT_KNEE, 50), (RIGHT_ANKLE, -40),
                               (LEFT_HIP, 0), (LEFT_KNEE, 0), (LEFT_ANKLE, 0)]) [],
      pose_from_neutral (Some [(RIGHT_HIP, 0), (RIGHT_KNEE, 30), (RIGHT_ANKLE, -20),
                               (LEFT_HIP, 0), (LEFT_KNEE, 0), (LEFT_ANKLE, 0)]) [],
      pose_from_neutral (Some [(RIGHT_HIP, 0), (RIGHT_KNEE, 10), (RIGHT_ANKLE, 0),
                               (LEFT_HIP, 0), (LEFT_KNEE, 0), (LEFT_ANKLE, 0)]) [],
      NEUTRAL]"

definition HIP_SWAY_SEQUENCE :: "pose list" where
  "HIP_SWAY_SEQUENCE =
     [pose_from_neutral (Some [(LEFT_HIP, -10), (RIGHT_HIP, -10), (LEFT_KNEE, 10),
                               (RIGHT_KNEE, 10), (LEFT_ANKLE, 0), (RIGHT_ANKLE, 0)]) [],
      NEUTRAL,
      pose_from_neutral (Some [(LEFT_HIP, 10), (RIGHT_HIP, 5), (LEFT_KNEE, 10),
                               (RIGHT_KNEE, 10), (LEFT_ANKLE, 0), (RIGHT_ANKLE, 0)]) [],
      NEUTRAL]"

definition HIP_CIRCLE_SEQUENCE :: "pose list" where
  "HIP_CIRCLE_SEQUENCE =
     [pose_from_neutral (Some [(LEFT_HIP, 5), (RIGHT_HIP, 5), (LEFT_KNEE, 15),
                               (RIGHT_KNEE, 15), (LEFT_ANKLE, -5), (RIGHT_ANKLE, -5)]) [],
      pose_from_neutral (Some [(LEFT_HIP, 10), (RIGHT_HIP, -5), (LEFT_KNEE, 10),
                               (RIGHT_KNEE, 10), (LEFT_ANKLE, 0), (RIGHT_ANKLE, 0)]) [],
      pose_from_neutral (Some [(LEFT_HIP, -10), (RIGHT_HIP, -10), (LEFT_KNEE, 5),
                               (RIGHT_KNEE, 5), (LEFT_ANKLE, 5), (RIGHT_ANKLE, 5)]) [],
      pose_from_neutral (Some [(LEFT_HIP, -5), (RIGHT_HIP, 5), (LEFT_KNEE, 10),
                               (RIGHT_KNEE, 10), (LEFT_ANKLE, 0), (RIGHT_ANKLE, 0)]) [],
      NEUTRAL]"

definition HIP_LIFT_SEQUENCE :: "pose list" where
  "HIP_LIFT_SEQUENCE =
     [pose_from_neutral (Some [(LEFT_HIP, 15), (RIGHT_HIP, -10), (LEFT_KNEE, 30),
                               (RIGHT_KNEE, 5), (LEFT_ANKLE, -15), (RIGHT_ANKLE, 0)]) [],
      NEUTRAL,
      pose_from_neutral (Some [(LEFT_HIP, -10), (RIGHT_HIP, 5), (LEFT_KNEE, 5),
                               (RIGHT_KNEE, 30), (LEFT_ANKLE, 0), (RIGHT_ANKLE, -15)]) [],
      NEUTRAL]"

definition DEEP_HIP_SEQUENCE :: "pose list" where
  "DEEP_HIP_SEQUENCE =
     [pose_from_neutral (Some [(LEFT_HIP, -20), (RIGHT_HIP, -10), (LEFT_KNEE, 20),
                               (RIGHT_KNEE, 15), (LEFT_ANKLE, -10), (RIGHT_ANKLE, 5)]) [],
      NEUTRAL,
      pose_from_neutral (Some [(LEFT_HIP, -10), (RIGHT_HIP, -20), (LEFT_KNEE, 15),
                               (RIGHT_KNEE, 20), (LEFT_ANKLE, 5), (RIGHT_ANKLE, -10)]) [],
      NEUTRAL]"

subsection \<open>The same function on a store of dict objects\<close>

text \<open>
  Whether the returned dict is a new object, and whether \<open>NEUTRAL\<close> is written to, is a
  question about references. Here a store is the list of all dict objects, a reference
  is an index into it, \<^verbatim>\<open>dict(x)\<close> allocates at the end and \<^verbatim>\<open>d[k] = v\<close> writes in place.
  \<open>neutral\<close> is the reference held by the global \<open>NEUTRAL\<close>.
\<close>

type_synonym store = "pose list"

definition dict_copy :: "nat \<Rightarrow> store \<Rightarrow> nat \<times> store" where
  "dict_copy r s = (length s, s @ [s ! r])"

definition dict_setitem :: "nat \<Rightarrow> key \<Rightarrow> real \<Rightarrow> store \<Rightarrow> store" where
  "dict_setitem r k v s = s[r := AList.update k v (s ! r)]"

fun apply_deltas_st :: "nat \<Rightarrow> nat \<Rightarrow> (key \<times> real) list \<Rightarrow> store \<Rightarrow> store" where
  "apply_deltas_st neutral pose [] s = s"
| "apply_deltas_st neutral pose ((sid, delta) # rest) s =
     apply_deltas_st neutral pose rest
       (if has_key sid (s ! pose)
        then dict_setitem pose sid (the (map_of (s ! neutral) sid) + delta) s
        else s)"

definition pose_from_neutral_st ::
  "nat \<Rightarrow> (key \<times> real) list option \<Rightarrow> (string \<times> real) list \<Rightarrow> store \<Rightarrow> nat \<times> store" where
  "pose_from_neutral_st neutral deltas_dict deltas s =
     (case dict_copy neutral s of
        (pose, s1) \<Rightarrow>
          (pose,
           (case deltas_dict of
              Some d \<Rightarrow> apply_deltas_st neutral pose d s1
            | None \<Rightarrow> apply_deltas_st neutral pose (kwargs_items deltas) s1)))"

section \<open>Servo bus, clock and console\<close>

text \<open>
  The class \<open>LX16A\<close>, the clock and the keyboard are outside the program. Their behaviour
  is an \<open>env\<close>: for the n-th blocking call of a run (a bus call or a sleep), whether the
  addressed servo fails (any exception derived from \<open>Exception\<close>: timeout, rejected
  argument), whether Ctrl-C arrives during the call (\<open>KeyboardInterrupt\<close>, which is not
  derived from \<open>Exception\<close>), and how much time the call takes beyond what was asked.
  A Ctrl-C between two blocking calls counts as arriving during the next one.
  The \<open>world\<close> holds the keys of the global \<open>SERVOS\<close>, the value \<^verbatim>\<open>time.time()\<close> would
  return, the number of blocking calls so far, and what the program did, in order.
  Progress banners are not modelled; printed warnings are.
\<close>

datatype exn = PyException | KeyboardInterrupt

datatype event =
    Connect
  | Attach key
  | Move key real int
  | Warning key
  | Sleep real
  | NeutralWarning

record env =
  connect_fault :: bool
  servo_fault :: "nat \<Rightarrow> key \<Rightarrow> bool"
  interrupt :: "nat \<Rightarrow> bool"
  lag :: "nat \<Rightarrow> real"

record world =
  servos :: "key list"
  clock :: real
  tick :: nat
  trace :: "event list"

datatype result = Done world | Raised exn world

definition and_then :: "result \<Rightarrow> (world \<Rightarrow> result) \<Rightarrow> result" where
  "and_then r f = (case r of Done w \<Rightarrow> f w | Raised e w \<Rightarrow> Raised e w)"

text \<open>A blocking call: it is logged, takes its time, and raises what the environment says.\<close>

definition blocking :: "env \<Rightarrow> event \<Rightarrow> bool \<Rightarrow> world \<Rightarrow> result" where
  "blocking env ev fails w =
     (let w' = w\<lparr>clock := clock w + lag env (tick w), tick := Suc (tick w),
                 trace := trace w @ [ev]\<rparr>
      in if interrupt env (tick w) then Raised KeyboardInterrupt w'
         else if fails then Raised PyException w'
         else Done w')"

text \<open>\<^verbatim>\<open>SERVOS[sid].move(angle, time=t_ms)\<close>: KeyError when \<open>sid\<close> has no handle.\<close>

definition servo_move :: "env \<Rightarrow> key \<Rightarrow> real \<Rightarrow> int \<Rightarrow> world \<Rightarrow> result" where
  "servo_move env sid angle t_ms w =
     (if sid \<in> set (servos w)
      then blocking env (Move sid angle t_ms) (servo_fault env (tick w) sid) w
      else Raised PyException w)"

text \<open>
  \<^verbatim>\<open>time.sleep(secs)\<close>: ValueError on a negative argument; OverflowError on one too large
  (CPython keeps the duration as a signed 64-bit count of nanoseconds; an int too large
  for a float already fails in \<^verbatim>\<open>t_ms / 1000.0\<close>, at the same place); otherwise it returns
  after at least \<open>secs\<close>, unless interrupted.
\<close>

definition SLEEP_MAX :: real where
  "SLEEP_MAX = 2 ^ 63 / 10 ^ 9"

definition sleep :: "env \<Rightarrow> real \<Rightarrow> world \<Rightarrow> result" where
  "sleep env secs w =
     (if secs < 0 then Raised PyException w
      else if SLEEP_MAX < secs then Raised PyException w
      else if interrupt env (tick w)
      then Raised KeyboardInterrupt
             (w\<lparr>clock := clock w + lag env (tick w), tick := Suc (tick w)\<rparr>)
      else Done (w\<lparr>clock := clock w + secs + lag env (tick w), tick := Suc (tick w),
                    trace := trace w @ [Sleep secs]\<rparr>))"

section \<open>Pose player (lines 77-94)\<close>

text \<open>The \<open>for\<close> loop of \<open>set_pose\<close> with its \<^verbatim>\<open>try ... except Exception\<close>.\<close>

fun dispatch :: "env \<Rightarrow> pose \<Rightarrow> int \<Rightarrow> world \<Rightarrow> result" where
  "dispatch env [] t_ms w = Done w"
| "dispatch env ((sid, angle) # rest) t_ms w =
     (case servo_move env sid (clamp_angle angle) t_ms w of
        Done w' \<Rightarrow> dispatch env rest t_ms w'
      | Raised PyException w' \<Rightarrow>
          dispatch env rest t_ms (w'\<lparr>trace := trace w' @ [Warning sid]\<rparr>)
      | Raised KeyboardInterrupt w' \<Rightarrow> Raised KeyboardInterrupt w')"

definition set_pose :: "env \<Rightarrow> pose \<Rightarrow> int \<Rightarrow> world \<Rightarrow> result" where
  "set_pose env pose t_ms w =
     and_then (dispatch env pose t_ms w) (sleep env (real_of_int t_ms / 1000.0 + 0.05))"

section \<open>Gaits (lines 203-407)\<close>

text \<open>\<^verbatim>\<open>for keyframe in sequence: set_pose(keyframe, t_ms)\<close>.\<close>

fun play_keyframes :: "env \<Rightarrow> pose list \<Rightarrow> int \<Rightarrow> world \<Rightarrow> result" where
  "play_keyframes env [] t_ms w = Done w"
| "play_keyframes env (keyframe # rest) t_ms w =
     and_then (set_pose env keyframe t_ms w) (play_keyframes env rest t_ms)"

text \<open>The body of \<^verbatim>\<open>for step_num in range(steps)\<close>, over the list of indices.\<close>

fun walk_steps :: "env \<Rightarrow> nat list \<Rightarrow> int \<Rightarrow> world \<Rightarrow> result" where
  "walk_steps env [] t_ms w = Done w"
| "walk_steps env (step_num # rest) t_ms w =
     and_then
       (play_keyframes env
          (if step_num mod 2 = 0 then LEFT_LEG_STEP_SEQUENCE else RIGHT_LEG_STEP_SEQUENCE)
          t_ms w)
       (walk_steps env rest t_ms)"

definition walk :: "env \<Rightarrow> int \<Rightarrow> int \<Rightarrow> world \<Rightarrow> result" where
  "walk env steps t_ms w =
     and_then
       (and_then
          (and_then (set_pose env NEUTRAL 800 w) (sleep env 0.5))
          (walk_steps env [0..<nat steps] t_ms))
       (set_pose env NEUTRAL 800)"

text \<open>The \<open>if/elif\<close> chain of lines 383-398 on \<open>sequence_num\<close>.\<close>

definition dance_phrase :: "nat \<Rightarrow> pose list" where
  "dance_phrase sequence_num =
     (if sequence_num = 1 then HIP_SWAY_SEQUENCE
      else if sequence_num = 2 then HIP_CIRCLE_SEQUENCE
      else if sequence_num = 3 then HIP_LIFT_SEQUENCE
      else DEEP_HIP_SEQUENCE)"

text \<open>
  The \<open>while\<close> loop of lines 379-402. It need not terminate (a clock that stands still),
  so it runs on fuel and \<open>None\<close> is "still running". \<open>sequence_count\<close> is the value of the
  counter on entry to the iteration.
\<close>

fun dance_loop ::
  "env \<Rightarrow> nat \<Rightarrow> real \<Rightarrow> int \<Rightarrow> real \<Rightarrow> nat \<Rightarrow> world \<Rightarrow> result option" where
  "dance_loop env 0 duration_sec t_ms start_time sequence_count w = None"
| "dance_loop env (Suc fuel) duration_sec t_ms start_time sequence_count w =
     (if clock w - start_time < duration_sec
      then (case play_keyframes env (dance_phrase (Suc sequence_count mod 4)) t_ms w of
              Done w' \<Rightarrow>
                if clock w' - start_time \<ge> duration_sec then Some (Done w')
                else dance_loop env fuel duration_sec t_ms start_time (Suc sequence_count) w'
            | Raised e w' \<Rightarrow> Some (Raised e w'))
      else Some (Done w))"

definition dance :: "env \<Rightarrow> nat \<Rightarrow> real \<Rightarrow> int \<Rightarrow> world \<Rightarrow> result option" where
  "dance env fuel duration_sec t_ms w =
     (case and_then (set_pose env NEUTRAL 800 w) (sleep env 0.5) of
        Raised e w1 \<Rightarrow> Some (Raised e w1)
      | Done w1 \<Rightarrow>
          (case dance_loop env fuel duration_sec t_ms (clock w1) 0 w1 of
             None \<Rightarrow> None
           | Some r \<Rightarrow> Some (and_then r (set_pose env NEUTRAL 800))))"

section \<open>Session (dance.py)\<close>

definition LX16A_initialize :: "env \<Rightarrow> world \<Rightarrow> result" where
  "LX16A_initialize env w = blocking env Connect (connect_fault env) w"

text \<open>The six constructor calls \<^verbatim>\<open>LX16A(id)\<close> of the dict display, in its order.\<close>

fun construct_all :: "env \<Rightarrow> key list \<Rightarrow> world \<Rightarrow> result" where
  "construct_all env [] w = Done w"
| "construct_all env (sid # rest) w =
     and_then (blocking env (Attach sid) (servo_fault env (tick w) sid) w)
       (construct_all env rest)"

definition SERVO_IDS :: "key list" where
  "SERVO_IDS = [LEFT_ANKLE, LEFT_KNEE, LEFT_HIP, RIGHT_ANKLE, RIGHT_KNEE, RIGHT_HIP]"

definition initialize_servos :: "env \<Rightarrow> world \<Rightarrow> result" where
  "initialize_servos env w =
     and_then (construct_all env SERVO_IDS w) (\<lambda>w'. Done (w'\<lparr>servos := SERVO_IDS\<rparr>))"

text \<open>
  The \<open>finally\<close> block of \<open>main\<close> (lines 50-58):
  \<^verbatim>\<open>try: set_pose(NEUTRAL, 800); time.sleep(0.5) except Exception: print(warning)\<close>.
\<close>

definition return_to_neutral :: "env \<Rightarrow> world \<Rightarrow> result" where
  "return_to_neutral env w =
     (case and_then (set_pose env NEUTRAL 800 w) (sleep env 0.5) of
        Done w' \<Rightarrow> Done w'
      | Raised PyException w' \<Rightarrow> Done (w'\<lparr>trace := trace w' @ [NeutralWarning]\<rparr>)
      | Raised KeyboardInterrupt w' \<Rightarrow> Raised KeyboardInterrupt w')"

text \<open>
  \<^verbatim>\<open>try: body finally: block\<close>: the block runs however the body ended; if the block
  returns, the body's outcome stands, and if the block raises, its exception replaces it.
\<close>

definition try_finally :: "result \<Rightarrow> (world \<Rightarrow> result) \<Rightarrow> result" where
  "try_finally r block =
     (case r of
        Done w \<Rightarrow> block w
      | Raised e w \<Rightarrow>
          (case block w of Done w' \<Rightarrow> Raised e w' | Raised e' w' \<Rightarrow> Raised e' w'))"

definition main :: "env \<Rightarrow> nat \<Rightarrow> world \<Rightarrow> result option" where
  "main env fuel w =
     (case LX16A_initialize env w of
        Raised PyException w1 \<Rightarrow> Some (Done w1)
      | Raised KeyboardInterrupt w1 \<Rightarrow> Some (Raised KeyboardInterrupt w1)
      | Done w1 \<Rightarrow>
          (case initialize_servos env w1 of
             Raised PyException w2 \<Rightarrow> Some (Done w2)
           | Raised KeyboardInterrupt w2 \<Rightarrow> Some (Raised KeyboardInterrupt w2)
           | Done w2 \<Rightarrow>
               (case dance env fuel 15 400 w2 of
                  None \<Rightarrow> None
                | Some r \<Rightarrow> Some (try_finally r (return_to_neutral env)))))"

text \<open>\<^verbatim>\<open>try: set_pose(NEUTRAL, 800) except: pass\<close> (lines 67-70 and 75-79).\<close>

definition try_neutral :: "env \<Rightarrow> world \<Rightarrow> result" where
  "try_neutral env w =
     (case set_pose env NEUTRAL 800 w of Done w' \<Rightarrow> Done w' | Raised e w' \<Rightarrow> Done w')"

text \<open>The \<^verbatim>\<open>if __name__ == "__main__"\<close> block (lines 61-80).\<close>

definition script :: "env \<Rightarrow> nat \<Rightarrow> world \<Rightarrow> result option" where
  "script env fuel w =
     (case main env fuel w of
        None \<Rightarrow> None
      | Some (Done w') \<Rightarrow> Some (Done w')
      | Some (Raised KeyboardInterrupt w') \<Rightarrow> Some (try_neutral env w')
      | Some (Raised PyException w') \<Rightarrow> Some (try_neutral env w'))"

section \<open>Motion programs, for stating what a gait does\<close>

datatype action = Apply pose int | Pause real

fun perform :: "env \<Rightarrow> action \<Rightarrow> world \<Rightarrow> result" where
  "perform env (Apply pose t_ms) w = set_pose env pose t_ms w"
| "perform env (Pause secs) w = sleep env secs w"

fun play :: "env \<Rightarrow> action list \<Rightarrow> world \<Rightarrow> result" where
  "play env [] w = Done w"
| "play env (a # rest) w = and_then (perform env a w) (play env rest)"

definition keyframes :: "pose list \<Rightarrow> int \<Rightarrow> action list" where
  "keyframes seq t_ms = map (\<lambda>pose. Apply pose t_ms) seq"

definition neutral_settle :: "action list" where
  "neutral_settle = [Apply NEUTRAL 800, Pause 0.5]"

definition step_sequence :: "nat \<Rightarrow> pose list" where
  "step_sequence i = (if even i then LEFT_LEG_STEP_SEQUENCE else RIGHT_LEG_STEP_SEQUENCE)"

definition walk_program :: "int \<Rightarrow> int \<Rightarrow> action list" where
  "walk_program steps t_ms =
     neutral_settle
     @ concat (map (\<lambda>i. keyframes (step_sequence i) t_ms) [0..<nat steps])
     @ [Apply NEUTRAL 800]"

text \<open>The walk as the specification words it: the extended settle at both ends.\<close>

definition walk_program_spec :: "int \<Rightarrow> int \<Rightarrow> action list" where
  "walk_program_spec steps t_ms =
     neutral_settle
     @ concat (map (\<lambda>i. keyframes (step_sequence i) t_ms) [0..<nat steps])
     @ neutral_settle"

definition dance_cycle :: "pose list list" where
  "dance_cycle =
     [HIP_SWAY_SEQUENCE, HIP_CIRCLE_SEQUENCE, HIP_LIFT_SEQUENCE, DEEP_HIP_SEQUENCE]"

text \<open>The first \<open>k\<close> phrases of the round robin, from the \<open>i\<close>-th on (0-based).\<close>

definition dance_phrases :: "nat \<Rightarrow> nat \<Rightarrow> int \<Rightarrow> action list" where
  "dance_phrases i k t_ms =
     concat (map (\<lambda>n. keyframes (dance_cycle ! (n mod 4)) t_ms) [i..<i + k])"

text \<open>
  For stating what one call of \<open>set_pose\<close> does. \<open>calls_before\<close> is the number of bus
  calls made for the first \<open>i\<close> servos of the pose (a servo without a handle costs none);
  \<open>attempt\<close> is what is seen of one servo when its turn comes at bus call \<open>n\<close>: the move
  command, followed by a warning when it fails, or the warning alone when the servo has
  no handle.
\<close>

definition calls_before :: "key list \<Rightarrow> pose \<Rightarrow> nat \<Rightarrow> nat" where
  "calls_before handles pose i =
     length (filter (\<lambda>(sid, angle). sid \<in> set handles) (take i pose))"

definition attempt :: "env \<Rightarrow> key list \<Rightarrow> int \<Rightarrow> nat \<Rightarrow> key \<times> real \<Rightarrow> event list" where
  "attempt env handles t_ms n p =
     (case p of
        (sid, angle) \<Rightarrow>
          if sid \<in> set handles
          then Move sid (clamp_angle angle) t_ms
               # (if servo_fault env n sid then [Warning sid] else [])
          else [Warning sid])"

definition attempts :: "env \<Rightarrow> key list \<Rightarrow> int \<Rightarrow> nat \<Rightarrow> pose \<Rightarrow> event list" where
  "attempts env handles t_ms n pose =
     concat (map (\<lambda>i. attempt env handles t_ms (n + calls_before handles pose i) (pose ! i))
               [0..<length pose])"

section \<open>Reading results, and the environments and worlds of the examples\<close>

definition final :: "result \<Rightarrow> world" where
  "final r = (case r of Done w \<Rightarrow> w | Raised e w \<Rightarrow> w)"

definition outcome :: "result \<Rightarrow> exn option" where
  "outcome r = (case r of Done w \<Rightarrow> None | Raised e w \<Rightarrow> Some e)"

text \<open>Nothing fails, nobody presses Ctrl-C, every call takes exactly the time asked.\<close>

definition quiet :: env where
  "quiet = \<lparr>connect_fault = False, servo_fault = (\<lambda>n sid. False),
             interrupt = (\<lambda>n. False), lag = (\<lambda>n. 0)\<rparr>"

text \<open>Ctrl-C during the blocking call number \<open>k\<close> (counted from 0).\<close>

definition ctrl_c_at :: "nat \<Rightarrow> env" where
  "ctrl_c_at k = quiet\<lparr>interrupt := (\<lambda>n. n = k)\<rparr>"

text \<open>The left ankle (the third servo of every pose) answers no command.\<close>

definition ankle_times_out :: env where
  "ankle_times_out = quiet\<lparr>servo_fault := (\<lambda>n sid. sid = LEFT_ANKLE)\<rparr>"

text \<open>Ctrl-C during call 16, and from then on the right knee answers no command.\<close>

definition ctrl_c_then_knee_fault :: env where
  "ctrl_c_then_knee_fault =
     quiet\<lparr>interrupt := (\<lambda>n. n = 16), servo_fault := (\<lambda>n sid. 16 < n \<and> sid = RIGHT_KNEE)\<rparr>"

text \<open>The process at start, and after a successful \<open>initialize_servos\<close>.\<close>

definition power_on :: world where
  "power_on = \<lparr>servos = [], clock = 0, tick = 0, trace = []\<rparr>"

definition ready :: world where
  "ready = \<lparr>servos = SERVO_IDS, clock = 0, tick = 0, trace = []\<rparr>"

section \<open>Properties of the pose model\<close>

lemmas servo_ids =
  LEFT_ANKLE_def LEFT_KNEE_def LEFT_HIP_def RIGHT_ANKLE_def RIGHT_KNEE_def RIGHT_HIP_def

lemma keys_update_present:
  "has_key k p \<Longrightarrow> map fst (AList.update k v p) = map fst p"
  by (induction p) (auto simp: has_key_def)

lemma keys_apply_deltas: "map fst (apply_deltas base d p) = map fst p"
  by (induction base d p rule: apply_deltas.induct) (simp_all add: keys_update_present)

lemma map_of_apply_deltas_absent:
  "sid \<notin> set (map fst d) \<Longrightarrow> map_of (apply_deltas base d p) sid = map_of p sid"
  by (induction base d p rule: apply_deltas.induct) (auto simp: update_conv')

lemma map_of_apply_deltas_present:
  "distinct (map fst d) \<Longrightarrow> (sid, x) \<in> set d \<Longrightarrow> has_key sid p \<Longrightarrow>
   map_of (apply_deltas base d p) sid = Some (the (map_of base sid) + x)"
proof (induction base d p rule: apply_deltas.induct)
  case (1 base pose)
  then show ?case by simp
next
  case (2 base k delta rest pose)
  show ?case
  proof (cases "k = sid")
    case True
    with 2 have "x = delta" by (auto simp: rev_image_eqI)
    moreover from 2 True have "sid \<notin> set (map fst rest)" by simp
    ultimately show ?thesis using 2 True
      by (simp add: map_of_apply_deltas_absent update_conv')
  next
    case False
    let ?p = "if has_key k pose
              then AList.update k (the (map_of base k) + delta) pose else pose"
    have "has_key sid ?p" using 2(4) by (simp add: has_key_def dom_update)
    moreover have "distinct (map fst rest)" "(sid, x) \<in> set rest" using 2 False by auto
    ultimately show ?thesis using 2(1) by simp
  qed
qed

lemma apply_deltas_filter:
  "map fst p = map fst b \<Longrightarrow>
   apply_deltas base d p = apply_deltas base (filter (\<lambda>(sid, delta). has_key sid b) d) p"
proof (induction base d p rule: apply_deltas.induct)
  case (1 base pose)
  then show ?case by simp
next
  case (2 base sid delta rest pose)
  have same: "has_key sid pose = has_key sid b" using 2(2) by (simp add: has_key_def)
  let ?p = "if has_key sid pose
            then AList.update sid (the (map_of base sid) + delta) pose else pose"
  have "map fst ?p = map fst b" using 2(2) by (simp add: keys_update_present)
  then have "apply_deltas base rest ?p =
             apply_deltas base (filter (\<lambda>(sid, delta). has_key sid b) rest) ?p"
    by (rule 2(1))
  then show ?case using same by simp
qed

lemma apply_deltas_str_keys:
  "\<forall>k \<in> set (map fst p). \<exists>i. k = IntKey i \<Longrightarrow> apply_deltas base (kwargs_items kw) p = p"
proof (induction kw)
  case Nil
  then show ?case by (simp add: kwargs_items_def)
next
  case (Cons e kw)
  obtain name delta where e: "e = (name, delta)" by (cases e)
  have "\<not> has_key (StrKey name) p" using Cons.prems by (auto simp: has_key_def)
  then show ?case using Cons e by (simp add: kwargs_items_def)
qed

lemma apply_deltas_st_fresh:
  "neutral < length s \<Longrightarrow>
   apply_deltas_st neutral (length s) d (s @ [q]) = s @ [apply_deltas (s ! neutral) d q]"
  by (induction d arbitrary: q) (auto simp: dict_setitem_def nth_append)

lemma pose_from_neutral_st_eq:
  "neutral < length s \<Longrightarrow>
   pose_from_neutral_st neutral dd kw s = (length s, s @ [pose_from_base (s ! neutral) dd kw])"
  by (simp add: pose_from_neutral_st_def dict_copy_def pose_from_base_def apply_deltas_st_fresh
      split: option.split)

lemma neutral_int_keys: "\<forall>k \<in> set (map fst NEUTRAL). \<exists>i. k = IntKey i"
  by (simp add: NEUTRAL_def servo_ids)

text \<open>
  C8. The clamp of line 88 is \<open>min(240, max(0, a))\<close> for every real \<open>a\<close>, and clamping
  twice is clamping once. It is a total function of its argument alone.
\<close>

theorem clamp_angle_spec:
  "clamp_angle a = min 240 (max 0 a) \<and> clamp_angle (clamp_angle a) = clamp_angle a"
  by (simp add: clamp_angle_def min_def max_def)

text \<open>
  C9. Every angle of every pose of the four dance phrases (neutral angle plus
  choreography delta, as \<open>pose_from_neutral\<close> computes it, or the neutral angle itself)
  lies in [0, 240] with no clamping applied, so the clamp leaves it as it is.
\<close>

theorem dance_angles_in_range:
  "\<forall>pose \<in> set (HIP_SWAY_SEQUENCE @ HIP_CIRCLE_SEQUENCE @ HIP_LIFT_SEQUENCE
                  @ DEEP_HIP_SEQUENCE).
     \<forall>(sid, angle) \<in> set pose. 0 \<le> angle \<and> angle \<le> 240 \<and> clamp_angle angle = angle"
  by (simp add: HIP_SWAY_SEQUENCE_def HIP_CIRCLE_SEQUENCE_def HIP_LIFT_SEQUENCE_def
      DEEP_HIP_SEQUENCE_def pose_from_neutral_def pose_from_base_def NEUTRAL_def servo_ids
      has_key_def clamp_angle_def)

theorem dance_angles_in_range_witness:
  "HIP_SWAY_SEQUENCE ! 2 \<in> set (HIP_SWAY_SEQUENCE @ HIP_CIRCLE_SEQUENCE @ HIP_LIFT_SEQUENCE
                                  @ DEEP_HIP_SEQUENCE)
   \<and> (RIGHT_HIP, 239) \<in> set (HIP_SWAY_SEQUENCE ! 2)
   \<and> (0::real) \<le> 239 \<and> (239::real) \<le> 240 \<and> clamp_angle 239 = 239"
proof -
  have m: "HIP_SWAY_SEQUENCE ! 2 \<in> set (HIP_SWAY_SEQUENCE @ HIP_CIRCLE_SEQUENCE
             @ HIP_LIFT_SEQUENCE @ DEEP_HIP_SEQUENCE)"
    by (simp add: HIP_SWAY_SEQUENCE_def)
  have e: "(RIGHT_HIP, 239) \<in> set (HIP_SWAY_SEQUENCE ! 2)"
    by (simp add: HIP_SWAY_SEQUENCE_def pose_from_neutral_def pose_from_base_def NEUTRAL_def
        servo_ids has_key_def)
  from dance_angles_in_range m
  have "\<forall>(sid, angle) \<in> set (HIP_SWAY_SEQUENCE ! 2).
          0 \<le> angle \<and> angle \<le> 240 \<and> clamp_angle angle = angle"
    by (rule bspec)
  with e have "(0::real) \<le> 239 \<and> (239::real) \<le> 240 \<and> clamp_angle 239 = 239"
    by fastforce
  with m e show ?thesis by simp
qed

text \<open>
  C1, as the code has it. For every base pose \<open>b\<close> and every delta dict \<open>d\<close> (distinct
  keys, as in any dict), the pose returned holds, for a servo id of \<open>b\<close>, the base angle
  plus the delta when \<open>d\<close> lists the id, and the base angle when it does not. The sum is
  not clamped here: clamping is done by \<open>set_pose\<close> when the pose is sent.
\<close>

theorem pose_from_base_angles:
  assumes "distinct (map fst d)" and "map_of b sid = Some a"
  shows "map_of (pose_from_base b (Some d) kw) sid =
         Some (case map_of d sid of Some x \<Rightarrow> a + x | None \<Rightarrow> a)"
proof (cases "map_of d sid")
  case None
  then have "sid \<notin> set (map fst d)" by (simp add: map_of_eq_None_iff)
  then show ?thesis using assms(2) None
    by (simp add: pose_from_base_def map_of_apply_deltas_absent)
next
  case (Some x)
  then have "(sid, x) \<in> set d" by (rule map_of_SomeD)
  moreover have "has_key sid b"
    using assms(2) by (auto simp: has_key_def dest: map_of_SomeD intro: rev_image_eqI)
  ultimately show ?thesis using assms Some
    by (simp add: pose_from_base_def map_of_apply_deltas_present)
qed

theorem pose_from_base_angles_witness:
  "distinct (map fst [(RIGHT_HIP, 10::real), (LEFT_KNEE, -200)])
   \<and> map_of NEUTRAL RIGHT_HIP = Some 234
   \<and> map_of (pose_from_base NEUTRAL (Some [(RIGHT_HIP, 10), (LEFT_KNEE, -200)]) []) RIGHT_HIP
       = Some 244"
proof -
  have d: "distinct (map fst [(RIGHT_HIP, 10::real), (LEFT_KNEE, -200)])"
    by (simp add: servo_ids)
  have a: "map_of NEUTRAL RIGHT_HIP = Some 234" by (simp add: NEUTRAL_def servo_ids)
  show ?thesis using d a pose_from_base_angles [OF d a, of "[]"] by (simp add: servo_ids)
qed

text \<open>
  C1 as stated fails: with the delta \<open>+10\<close> on the right hip (neutral 234) the pose
  returned holds 244, where the clamp would give 240.
\<close>

theorem pose_from_neutral_clamp_counterexample:
  "map_of NEUTRAL RIGHT_HIP = Some 234 \<and>
   map_of (pose_from_neutral (Some [(RIGHT_HIP, 10)]) []) RIGHT_HIP = Some 244 \<and>
   clamp_angle (234 + 10) = 240"
  by (simp add: pose_from_neutral_def pose_from_base_def NEUTRAL_def servo_ids has_key_def
      clamp_angle_def)

text \<open>
  C6, as the code has it. A delta entry whose servo id is absent from the base is
  skipped by the guard \<^verbatim>\<open>if sid in pose\<close>: the result is the pose obtained from the
  entries whose id the base has, and nothing is raised.
\<close>

theorem pose_from_base_ignores_unknown_ids:
  "pose_from_base b (Some d) kw =
   pose_from_base b (Some (filter (\<lambda>(sid, delta). has_key sid b) d)) kw"
  using apply_deltas_filter [of b b b d] by (simp add: pose_from_base_def)

text \<open>
  C6 as stated fails: a delta for servo id 99, which \<open>NEUTRAL\<close> does not have, yields a
  pose (the neutral one), not an error.
\<close>

theorem pose_from_neutral_unknown_id_counterexample:
  "\<not> has_key (IntKey 99) NEUTRAL \<and> pose_from_neutral (Some [(IntKey 99, 10)]) [] = NEUTRAL"
  by (simp add: pose_from_neutral_def pose_from_base_def NEUTRAL_def servo_ids has_key_def)

text \<open>
  C10. Called with keyword arguments only, \<open>pose_from_neutral\<close> returns a pose equal to
  \<open>NEUTRAL\<close>: the names are strings, the keys of the pose are integers, so no angle is
  written. On the store: whatever the arguments, the reference returned is a new one,
  every object that existed (among them \<open>NEUTRAL\<close>) is left as it was, and the new dict
  has the keys of \<open>NEUTRAL\<close>, in its order.
\<close>

theorem pose_from_neutral_kwargs_only:
  assumes "neutral < length s" and "s ! neutral = NEUTRAL"
  shows "pose_from_neutral None kw = NEUTRAL
         \<and> pose_from_neutral_st neutral None kw s = (length s, s @ [NEUTRAL])
         \<and> (\<exists>q. pose_from_neutral_st neutral dd kw' s = (length s, s @ [q])
                \<and> map fst q = map fst NEUTRAL
                \<and> q = pose_from_neutral dd kw'
                \<and> (s @ [q]) ! neutral = NEUTRAL)"
proof -
  have pure: "pose_from_neutral None kw = NEUTRAL"
    using neutral_int_keys
    by (simp add: pose_from_neutral_def pose_from_base_def apply_deltas_str_keys)
  have st: "pose_from_neutral_st neutral dd' kw'' s = (length s, s @ [pose_from_neutral dd' kw''])"
    for dd' kw''
    using assms by (simp add: pose_from_neutral_st_eq pose_from_neutral_def)
  have keys: "map fst (pose_from_neutral dd kw') = map fst NEUTRAL"
    by (simp add: pose_from_neutral_def pose_from_base_def keys_apply_deltas
        split: option.split)
  have old: "(s @ [pose_from_neutral dd kw']) ! neutral = NEUTRAL"
    using assms by (simp add: nth_append)
  show ?thesis using pure st [of None kw] st [of dd kw'] keys old by simp
qed

theorem pose_from_neutral_kwargs_only_witness:
  "(0::nat) < length [NEUTRAL] \<and> [NEUTRAL] ! 0 = NEUTRAL
   \<and> pose_from_neutral None [(''LEFT_HIP'', 10)] = NEUTRAL
   \<and> pose_from_neutral_st 0 None [(''LEFT_HIP'', 10)] [NEUTRAL] = (1, [NEUTRAL, NEUTRAL])
   \<and> fst (pose_from_neutral_st 0 (Some [(LEFT_HIP, 10)]) [] [NEUTRAL]) = 1
   \<and> snd (pose_from_neutral_st 0 (Some [(LEFT_HIP, 10)]) [] [NEUTRAL]) ! 0 = NEUTRAL"
proof -
  have h1: "(0::nat) < length [NEUTRAL]" by simp
  have h2: "[NEUTRAL] ! 0 = NEUTRAL" by simp
  show ?thesis
    using h1 h2
      pose_from_neutral_kwargs_only [OF h1 h2, of "[(''LEFT_HIP'', 10)]"
        "Some [(LEFT_HIP, 10)]" "[]"]
    by auto
qed

section \<open>A gait is the play of a motion program\<close>

lemma and_then_simps [simp]:
  "and_then (Done w) f = f w"
  "and_then (Raised e w) f = Raised e w"
  by (simp_all add: and_then_def)

lemma and_then_assoc: "and_then (and_then r f) g = and_then r (\<lambda>w. and_then (f w) g)"
  by (cases r) simp_all

lemma play_append: "play env (xs @ ys) w = and_then (play env xs w) (play env ys)"
proof (induction xs arbitrary: w)
  case Nil
  show ?case by simp
next
  case (Cons a xs)
  show ?case by (cases "perform env a w") (simp_all add: Cons)
qed

lemma play_keyframes_play: "play_keyframes env seq t_ms w = play env (keyframes seq t_ms) w"
proof (induction seq arbitrary: w)
  case Nil
  show ?case by (simp add: keyframes_def)
next
  case (Cons p seq)
  have "keyframes (p # seq) t_ms = Apply p t_ms # keyframes seq t_ms"
    by (simp add: keyframes_def)
  then show ?case by (cases "set_pose env p t_ms w") (simp_all add: Cons)
qed

lemma walk_steps_play:
  "walk_steps env is t_ms w = play env (concat (map (\<lambda>i. keyframes (step_sequence i) t_ms) is)) w"
proof (induction "is" arbitrary: w)
  case Nil
  show ?case by simp
next
  case (Cons i "is")
  have sel: "(if i mod 2 = 0 then LEFT_LEG_STEP_SEQUENCE else RIGHT_LEG_STEP_SEQUENCE) = step_sequence i"
    by (simp add: step_sequence_def even_iff_mod_2_eq_zero)
  show ?case
    by (cases "play env (keyframes (step_sequence i) t_ms) w")
       (simp_all add: sel play_keyframes_play play_append Cons)
qed

lemma play_single_apply: "play env [Apply p t_ms] = set_pose env p t_ms"
  by (rule ext) (simp add: and_then_def split: result.splits)

lemma play_single_pause: "play env [Pause secs] = sleep env secs"
  by (rule ext) (simp add: and_then_def split: result.splits)

lemma play_settle:
  "and_then (set_pose env NEUTRAL 800 w) (sleep env 0.5) = play env neutral_settle w"
proof -
  have "play env neutral_settle w =
        and_then (set_pose env NEUTRAL 800 w) (play env [Pause 0.5])"
    unfolding neutral_settle_def by (simp only: play.simps(2) perform.simps)
  then show ?thesis by (simp only: play_single_pause)
qed

lemma walk_plays_program: "walk env steps t_ms w = play env (walk_program steps t_ms) w"
proof -
  let ?steps = "concat (map (\<lambda>i. keyframes (step_sequence i) t_ms) [0..<nat steps])"
  have "walk env steps t_ms w =
        and_then (and_then (play env neutral_settle w) (play env ?steps))
          (play env [Apply NEUTRAL 800])"
    unfolding walk_def play_settle
    by (simp only: walk_steps_play [abs_def] play_single_apply [symmetric])
  also have "\<dots> = play env ((neutral_settle @ ?steps) @ [Apply NEUTRAL 800]) w"
    by (simp only: play_append)
  finally show ?thesis by (simp add: walk_program_def)
qed

lemma dance_phrases_Suc:
  "dance_phrases i (Suc k) t_ms = keyframes (dance_cycle ! (i mod 4)) t_ms @ dance_phrases (Suc i) k t_ms"
  by (simp add: dance_phrases_def upt_conv_Cons del: upt_Suc)

lemma dance_phrase_cycle: "dance_phrase (Suc n mod 4) = dance_cycle ! (n mod 4)"
proof -
  have "n mod 4 = 0 \<or> n mod 4 = 1 \<or> n mod 4 = 2 \<or> n mod 4 = 3" by presburger
  moreover have "Suc n mod 4 = Suc (n mod 4) mod 4" by presburger
  ultimately show ?thesis
    by (auto simp: dance_phrase_def dance_cycle_def)
qed

lemma dance_loop_plays:
  "dance_loop env fuel duration_sec t_ms start_time sequence_count w = Some r \<Longrightarrow>
   \<exists>k. r = play env (dance_phrases sequence_count k t_ms) w"
proof (induction fuel arbitrary: sequence_count w)
  case 0
  then show ?case by simp
next
  case (Suc fuel)
  show ?case
  proof (cases "clock w - start_time < duration_sec")
    case False
    with Suc.prems have "r = play env (dance_phrases sequence_count 0 t_ms) w"
      by (simp add: dance_phrases_def)
    then show ?thesis ..
  next
    case True
    let ?ph = "keyframes (dance_cycle ! (sequence_count mod 4)) t_ms"
    have one: "play env (dance_phrases sequence_count (Suc k) t_ms) w =
          and_then (play env ?ph w) (play env (dance_phrases (Suc sequence_count) k t_ms))" for k
      by (simp add: dance_phrases_Suc play_append)
    show ?thesis
    proof (cases "play env ?ph w")
      case (Raised e w')
      with Suc.prems True have "r = Raised e w'"
        by (simp add: play_keyframes_play dance_phrase_cycle)
      with Raised have "r = play env (dance_phrases sequence_count (Suc 0) t_ms) w"
        by (simp add: one)
      then show ?thesis ..
    next
      case (Done w')
      show ?thesis
      proof (cases "clock w' - start_time \<ge> duration_sec")
        case True
        with Suc.prems \<open>clock w - start_time < duration_sec\<close> Done have "r = Done w'"
          by (simp add: play_keyframes_play dance_phrase_cycle)
        with Done have "r = play env (dance_phrases sequence_count (Suc 0) t_ms) w"
          by (simp add: one dance_phrases_def)
        then show ?thesis ..
      next
        case False
        with Suc.prems \<open>clock w - start_time < duration_sec\<close> Done
        have "dance_loop env fuel duration_sec t_ms start_time (Suc sequence_count) w' = Some r"
          by (simp add: play_keyframes_play dance_phrase_cycle)
        then obtain k where "r = play env (dance_phrases (Suc sequence_count) k t_ms) w'"
          using Suc.IH by blast
        with Done have "r = play env (dance_phrases sequence_count (Suc k) t_ms) w"
          by (simp add: one)
        then show ?thesis ..
      qed
    qed
  qed
qed

lemma dance_plays:
  assumes "dance env fuel duration_sec t_ms w = Some r"
  shows "\<exists>k. r = play env (neutral_settle @ dance_phrases 0 k t_ms @ [Apply NEUTRAL 800]) w"
proof -
  have fin: "set_pose env NEUTRAL 800 = play env [Apply NEUTRAL 800]"
    by (simp only: play_single_apply)
  have ns: "dance env fuel duration_sec t_ms w =
     (case play env neutral_settle w of
        Raised e w1 \<Rightarrow> Some (Raised e w1)
      | Done w1 \<Rightarrow>
          (case dance_loop env fuel duration_sec t_ms (clock w1) 0 w1 of
             None \<Rightarrow> None
           | Some r \<Rightarrow> Some (and_then r (set_pose env NEUTRAL 800))))"
    by (simp only: dance_def play_settle)
  show ?thesis
  proof (cases "play env neutral_settle w")
    case (Raised e w1)
    with assms have "r = Raised e w1" by (simp add: ns)
    with Raised have "r = play env (neutral_settle @ dance_phrases 0 0 t_ms @ [Apply NEUTRAL 800]) w"
      by (simp add: play_append)
    then show ?thesis ..
  next
    case (Done w1)
    with assms obtain r1 where
      loop: "dance_loop env fuel duration_sec t_ms (clock w1) 0 w1 = Some r1"
      and r: "r = and_then r1 (set_pose env NEUTRAL 800)"
      by (auto simp: ns split: option.splits)
    from dance_loop_plays [OF loop] obtain k where "r1 = play env (dance_phrases 0 k t_ms) w1" ..
    with r Done fin have "r = play env (neutral_settle @ dance_phrases 0 k t_ms @ [Apply NEUTRAL 800]) w"
      by (simp add: play_append)
    then show ?thesis ..
  qed
qed

section \<open>Calm environments: what returns, and how the clock moves\<close>

lemma servo_move_calm:
  assumes "\<not> interrupt env (tick w)"
  shows "\<exists>w'. (servo_move env sid a t_ms w = Done w' \<or> servo_move env sid a t_ms w = Raised PyException w')
           \<and> tick w \<le> tick w' \<and> tick w' \<le> Suc (tick w) \<and> servos w' = servos w
           \<and> (0 \<le> lag env (tick w) \<longrightarrow> clock w \<le> clock w')"
  using assms by (auto simp: servo_move_def blocking_def Let_def)

lemma dispatch_returns:
  "\<forall>n\<ge>tick w. \<not> interrupt env n \<Longrightarrow>
   \<exists>w'. dispatch env pose t_ms w = Done w' \<and> tick w \<le> tick w'"
proof (induction pose arbitrary: w)
  case Nil
  then show ?case by simp
next
  case (Cons p pose)
  obtain sid a where p: "p = (sid, a)" by (cases p)
  from Cons.prems have "\<not> interrupt env (tick w)" by simp
  from servo_move_calm [OF this, of sid "clamp_angle a" t_ms]
  obtain w1 where
    mv: "servo_move env sid (clamp_angle a) t_ms w = Done w1
         \<or> servo_move env sid (clamp_angle a) t_ms w = Raised PyException w1"
    and t1: "tick w \<le> tick w1" by blast
  let ?w2 = "w1\<lparr>trace := trace w1 @ [Warning sid]\<rparr>"
  have c1: "\<forall>n\<ge>tick w1. \<not> interrupt env n" using Cons.prems t1 by simp
  then have c2: "\<forall>n\<ge>tick ?w2. \<not> interrupt env n" by simp
  from Cons.IH [OF c1] obtain w3 where d3: "dispatch env pose t_ms w1 = Done w3" "tick w1 \<le> tick w3" by blast
  from Cons.IH [OF c2] obtain w4 where d4: "dispatch env pose t_ms ?w2 = Done w4" "tick ?w2 \<le> tick w4" by blast
  from mv show ?case
  proof
    assume "servo_move env sid (clamp_angle a) t_ms w = Done w1"
    with d3 t1 p show ?thesis by simp
  next
    assume "servo_move env sid (clamp_angle a) t_ms w = Raised PyException w1"
    with d4 t1 p show ?thesis by simp
  qed
qed

lemma settle_sleepable:
  "real_of_int 800 / 1000 + 0.05 \<le> SLEEP_MAX" "0.5 \<le> SLEEP_MAX"
  by (simp_all add: SLEEP_MAX_def)

lemma sleep_returns:
  "0 \<le> secs \<Longrightarrow> secs \<le> SLEEP_MAX \<Longrightarrow> \<not> interrupt env (tick w) \<Longrightarrow>
   \<exists>w'. sleep env secs w = Done w' \<and> tick w' = Suc (tick w)"
  by (simp add: sleep_def)

lemma set_pose_returns:
  assumes "\<forall>n\<ge>tick w. \<not> interrupt env n" and "-50 \<le> t_ms"
    and "real_of_int t_ms / 1000 + 0.05 \<le> SLEEP_MAX"
  shows "\<exists>w'. set_pose env pose t_ms w = Done w' \<and> tick w \<le> tick w'"
proof -
  from dispatch_returns [OF assms(1)] obtain w1 where
    d: "dispatch env pose t_ms w = Done w1" and t1: "tick w \<le> tick w1" by blast
  have "0 \<le> real_of_int t_ms / 1000 + 0.05" using assms(2) by simp
  moreover have "\<not> interrupt env (tick w1)" using assms(1) t1 by simp
  ultimately obtain w2 where "sleep env (real_of_int t_ms / 1000 + 0.05) w1 = Done w2"
    "tick w2 = Suc (tick w1)" using sleep_returns assms(3) by blast
  with d t1 show ?thesis by (simp add: set_pose_def)
qed

lemma play_keyframes_returns:
  "\<forall>n\<ge>tick w. \<not> interrupt env n \<Longrightarrow> -50 \<le> t_ms \<Longrightarrow>
   real_of_int t_ms / 1000 + 0.05 \<le> SLEEP_MAX \<Longrightarrow>
   \<exists>w'. play_keyframes env seq t_ms w = Done w' \<and> tick w \<le> tick w'"
proof (induction seq arbitrary: w)
  case Nil
  then show ?case by simp
next
  case (Cons p seq)
  from set_pose_returns [OF Cons.prems] obtain w1 where
    s: "set_pose env p t_ms w = Done w1" and t1: "tick w \<le> tick w1" by blast
  then have "\<forall>n\<ge>tick w1. \<not> interrupt env n" using Cons.prems(1) by simp
  from Cons.IH [OF this Cons.prems(2,3)] obtain w2 where
    "play_keyframes env seq t_ms w1 = Done w2" "tick w1 \<le> tick w2" by blast
  with s t1 show ?case by simp
qed

lemma dispatch_clock:
  "\<forall>n. 0 \<le> lag env n \<Longrightarrow> dispatch env pose t_ms w = Done w' \<Longrightarrow> clock w \<le> clock w'"
proof (induction pose arbitrary: w)
  case Nil
  then show ?case by simp
next
  case (Cons p pose)
  obtain sid a where p: "p = (sid, a)" by (cases p)
  show ?case
  proof (cases "servo_move env sid (clamp_angle a) t_ms w")
    case (Done w1)
    then have "clock w \<le> clock w1" using Cons.prems(1)
      by (auto simp: servo_move_def blocking_def Let_def split: if_splits)
    moreover have "clock w1 \<le> clock w'" using Cons.IH [OF Cons.prems(1)] Cons.prems(2) p Done by simp
    ultimately show ?thesis by simp
  next
    case (Raised e w1)
    then have c: "clock w \<le> clock w1" using Cons.prems(1)
      by (auto simp: servo_move_def blocking_def Let_def split: if_splits)
    from Raised Cons.prems(2) p have e: "e = PyException" by (cases e) simp_all
    with Raised Cons.prems(2) p
    have "dispatch env pose t_ms (w1\<lparr>trace := trace w1 @ [Warning sid]\<rparr>) = Done w'" by simp
    from Cons.IH [OF Cons.prems(1) this] c show ?thesis by simp
  qed
qed

lemma set_pose_clock:
  assumes "\<forall>n. 0 \<le> lag env n" and "set_pose env pose t_ms w = Done w'"
  shows "clock w + (real_of_int t_ms / 1000 + 0.05) \<le> clock w'"
proof -
  from assms(2) obtain w1 where d: "dispatch env pose t_ms w = Done w1"
    and s: "sleep env (real_of_int t_ms / 1000 + 0.05) w1 = Done w'"
    by (cases "dispatch env pose t_ms w") (simp_all add: set_pose_def)
  from s have "clock w' = clock w1 + (real_of_int t_ms / 1000 + 0.05) + lag env (tick w1)"
    by (auto simp: sleep_def split: if_splits)
  moreover have "0 \<le> lag env (tick w1)" using assms(1) by simp
  moreover have "clock w \<le> clock w1" using dispatch_clock [OF assms(1) d] .
  ultimately show ?thesis by simp
qed

lemma play_keyframes_clock:
  "\<forall>n. 0 \<le> lag env n \<Longrightarrow> play_keyframes env seq t_ms w = Done w' \<Longrightarrow>
   clock w + real (length seq) * (real_of_int t_ms / 1000 + 0.05) \<le> clock w'"
proof (induction seq arbitrary: w)
  case Nil
  then show ?case by simp
next
  case (Cons p seq)
  from Cons.prems(2) obtain w1 where s: "set_pose env p t_ms w = Done w1"
    and r: "play_keyframes env seq t_ms w1 = Done w'"
    by (cases "set_pose env p t_ms w") simp_all
  define d where "d = real_of_int t_ms / 1000 + 0.05"
  have "clock w + d \<le> clock w1" "clock w1 + real (length seq) * d \<le> clock w'"
    using set_pose_clock [OF Cons.prems(1) s] Cons.IH [OF Cons.prems(1) r]
    by (simp_all add: d_def)
  moreover have "real (length (p # seq)) * d = d + real (length seq) * d"
    by (simp add: algebra_simps)
  ultimately have "clock w + real (length (p # seq)) * d \<le> clock w'" by linarith
  then show ?case by (simp add: d_def)
qed

lemma dance_phrase_length: "4 \<le> length (dance_phrase n)"
  by (simp add: dance_phrase_def HIP_SWAY_SEQUENCE_def HIP_CIRCLE_SEQUENCE_def
      HIP_LIFT_SEQUENCE_def DEEP_HIP_SEQUENCE_def)

lemma dance_loop_terminates:
  assumes calm: "\<forall>n. \<not> interrupt env n" and lagnn: "\<forall>n. 0 \<le> lag env n"
    and t: "0 \<le> t_ms" and big: "real_of_int t_ms / 1000 + 0.05 \<le> SLEEP_MAX"
  shows "duration_sec - (clock w - start_time) \<le> real fuel / 5 \<Longrightarrow>
         \<exists>w1. dance_loop env (Suc fuel) duration_sec t_ms start_time sequence_count w = Some (Done w1)
              \<and> duration_sec \<le> clock w1 - start_time"
proof (induction fuel arbitrary: w sequence_count)
  case 0
  then show ?case by simp
next
  case (Suc fuel)
  show ?case
  proof (cases "clock w - start_time < duration_sec")
    case False
    then show ?thesis by simp
  next
    case True
    let ?seq = "dance_phrase (Suc sequence_count mod 4)"
    have "\<forall>n\<ge>tick w. \<not> interrupt env n" using calm by simp
    moreover have "-50 \<le> t_ms" using t by simp
    ultimately obtain w' where pk: "play_keyframes env ?seq t_ms w = Done w'"
      using play_keyframes_returns big by blast
    have "clock w + real (length ?seq) * (real_of_int t_ms / 1000 + 0.05) \<le> clock w'"
      using play_keyframes_clock [OF lagnn pk] .
    moreover have "4 * (0.05::real) \<le> real (length ?seq) * (real_of_int t_ms / 1000 + 0.05)"
    proof (rule mult_mono)
      show "4 \<le> real (length ?seq)" using dance_phrase_length [of "Suc sequence_count mod 4"] by simp
      show "(0.05::real) \<le> real_of_int t_ms / 1000 + 0.05" using t by simp
    qed simp_all
    ultimately have adv: "clock w + 1 / 5 \<le> clock w'" by simp
    show ?thesis
    proof (cases "clock w' - start_time \<ge> duration_sec")
      case True
      with \<open>clock w - start_time < duration_sec\<close> pk show ?thesis by simp
    next
      case False
      have "duration_sec - (clock w' - start_time) \<le> real fuel / 5"
        using Suc.prems adv by (simp add: field_simps)
      from Suc.IH [OF this, of "Suc sequence_count"] obtain w1 where
        "dance_loop env (Suc fuel) duration_sec t_ms start_time (Suc sequence_count) w' = Some (Done w1)"
        "duration_sec \<le> clock w1 - start_time" by blast
      with False \<open>clock w - start_time < duration_sec\<close> pk show ?thesis by simp
    qed
  qed
qed

lemma dance_loop_more_fuel:
  "dance_loop env fuel duration_sec t_ms start_time sequence_count w = Some r \<Longrightarrow>
   dance_loop env (fuel + m) duration_sec t_ms start_time sequence_count w = Some r"
proof (induction fuel arbitrary: sequence_count w)
  case 0
  then show ?case by simp
next
  case (Suc fuel)
  then show ?case
    by (auto split: if_splits result.splits)
qed

lemma dance_calm:
  assumes calm: "\<forall>n. \<not> interrupt env n" and lagnn: "\<forall>n. 0 \<le> lag env n"
    and t: "0 \<le> t_ms" and big: "real_of_int t_ms / 1000 + 0.05 \<le> SLEEP_MAX"
  shows "\<exists>N k w1 w2 w3.
           play env neutral_settle w = Done w1
         \<and> play env (dance_phrases 0 k t_ms) w1 = Done w2
         \<and> duration_sec \<le> clock w2 - clock w1
         \<and> set_pose env NEUTRAL 800 w2 = Done w3
         \<and> (\<forall>fuel\<ge>N. dance_loop env fuel duration_sec t_ms (clock w1) 0 w1 = Some (Done w2)
                     \<and> dance env fuel duration_sec t_ms w = Some (Done w3))"
proof -
  have ret: "\<exists>v'. set_pose env NEUTRAL 800 v = Done v' \<and> tick v \<le> tick v'" for v
    by (rule set_pose_returns) (use calm settle_sleepable in simp_all)
  from ret obtain w0 where s0: "set_pose env NEUTRAL 800 w = Done w0" by blast
  have "\<exists>w1. sleep env 0.5 w0 = Done w1 \<and> tick w1 = Suc (tick w0)"
    by (rule sleep_returns) (use calm settle_sleepable in simp_all)
  then obtain w1 where s1: "sleep env 0.5 w0 = Done w1" by blast
  have settle: "and_then (set_pose env NEUTRAL 800 w) (sleep env 0.5) = Done w1"
    using s0 s1 by simp
  then have p1: "play env neutral_settle w = Done w1" by (simp only: play_settle)
  define N where "N = Suc (nat \<lceil>duration_sec * 5\<rceil>)"
  have "duration_sec * 5 \<le> real (nat \<lceil>duration_sec * 5\<rceil>)" by linarith
  then have "duration_sec - (clock w1 - clock w1) \<le> real (nat \<lceil>duration_sec * 5\<rceil>) / 5" by simp
  from dance_loop_terminates [OF calm lagnn t big this, of 0] obtain w2 where
    loop: "dance_loop env N duration_sec t_ms (clock w1) 0 w1 = Some (Done w2)"
    and dur: "duration_sec \<le> clock w2 - clock w1" by (auto simp: N_def)
  from dance_loop_plays [OF loop] obtain k where
    p2: "play env (dance_phrases 0 k t_ms) w1 = Done w2" by auto
  from ret obtain w3 where s3: "set_pose env NEUTRAL 800 w2 = Done w3" by blast
  have "dance_loop env fuel duration_sec t_ms (clock w1) 0 w1 = Some (Done w2)
        \<and> dance env fuel duration_sec t_ms w = Some (Done w3)" if "fuel \<ge> N" for fuel
  proof -
    from that have "fuel = N + (fuel - N)" by simp
    with dance_loop_more_fuel [OF loop, of "fuel - N"]
    have l: "dance_loop env fuel duration_sec t_ms (clock w1) 0 w1 = Some (Done w2)" by simp
    have "dance env fuel duration_sec t_ms w = Some (Done w3)"
      unfolding dance_def settle using l s3 by simp
    with l show ?thesis by simp
  qed
  with p1 p2 dur s3 show ?thesis by blast
qed

lemma attempts_Nil: "attempts env handles t_ms n [] = []"
  by (simp add: attempts_def)

lemma attempts_Cons:
  "attempts env handles t_ms n ((sid, angle) # rest) =
   attempt env handles t_ms n (sid, angle)
   @ attempts env handles t_ms (if sid \<in> set handles then Suc n else n) rest"
proof -
  have upt: "[0..<length ((sid, angle) # rest)] = 0 # map Suc [0..<length rest]"
    by (simp add: upt_conv_Cons map_Suc_upt del: upt_Suc)
  have cb: "calls_before handles ((sid, angle) # rest) (Suc i) =
            (if sid \<in> set handles then Suc (calls_before handles rest i)
             else calls_before handles rest i)" for i
    by (simp add: calls_before_def)
  show ?thesis
    unfolding attempts_def upt
    by (simp add: cb calls_before_def comp_def)
qed

lemma dispatch_trace:
  "\<forall>n\<ge>tick w. \<not> interrupt env n \<Longrightarrow>
   \<exists>w'. dispatch env pose t_ms w = Done w'
      \<and> trace w' = trace w @ attempts env (servos w) t_ms (tick w) pose
      \<and> servos w' = servos w \<and> tick w \<le> tick w'"
proof (induction pose arbitrary: w)
  case Nil
  then show ?case by (simp add: attempts_Nil)
next
  case (Cons p pose)
  obtain sid a where p: "p = (sid, a)" by (cases p)
  have now: "\<not> interrupt env (tick w)" using Cons.prems by simp
  show ?case
  proof (cases "sid \<in> set (servos w)")
    case False
    let ?w2 = "w\<lparr>trace := trace w @ [Warning sid]\<rparr>"
    have mv: "servo_move env sid (clamp_angle a) t_ms w = Raised PyException w"
      using False by (simp add: servo_move_def)
    have "\<forall>n\<ge>tick ?w2. \<not> interrupt env n" using Cons.prems by simp
    from Cons.IH [OF this] obtain w' where
      "dispatch env pose t_ms ?w2 = Done w'"
      "trace w' = trace ?w2 @ attempts env (servos ?w2) t_ms (tick ?w2) pose"
      "servos w' = servos ?w2" "tick ?w2 \<le> tick w'" by blast
    with mv p False show ?thesis by (simp add: attempts_Cons attempt_def)
  next
    case True
    let ?w1 = "w\<lparr>clock := clock w + lag env (tick w), tick := Suc (tick w),
               trace := trace w @ [Move sid (clamp_angle a) t_ms]\<rparr>"
    let ?w2 = "?w1\<lparr>trace := trace ?w1 @ [Warning sid]\<rparr>"
    have mv: "servo_move env sid (clamp_angle a) t_ms w =
              (if servo_fault env (tick w) sid then Raised PyException ?w1 else Done ?w1)"
      using True now by (simp add: servo_move_def blocking_def Let_def)
    have c1: "\<forall>n\<ge>tick ?w1. \<not> interrupt env n" and c2: "\<forall>n\<ge>tick ?w2. \<not> interrupt env n"
      using Cons.prems by simp_all
    show ?thesis
    proof (cases "servo_fault env (tick w) sid")
      case fails: True
      from Cons.IH [OF c2] obtain w' where
        "dispatch env pose t_ms ?w2 = Done w'"
        "trace w' = trace ?w2 @ attempts env (servos ?w2) t_ms (tick ?w2) pose"
        "servos w' = servos ?w2" "tick ?w2 \<le> tick w'" by blast
      with mv p True fails show ?thesis by (simp add: attempts_Cons attempt_def)
    next
      case ok: False
      from Cons.IH [OF c1] obtain w' where
        "dispatch env pose t_ms ?w1 = Done w'"
        "trace w' = trace ?w1 @ attempts env (servos ?w1) t_ms (tick ?w1) pose"
        "servos w' = servos ?w1" "tick ?w1 \<le> tick w'" by blast
      with mv p True ok show ?thesis by (simp add: attempts_Cons attempt_def)
    qed
  qed
qed

lemma dispatch_no_exception: "outcome (dispatch env pose t_ms w) \<noteq> Some PyException"
proof (induction pose arbitrary: w)
  case Nil
  show ?case by (simp add: outcome_def)
next
  case (Cons p pose)
  obtain sid a where p: "p = (sid, a)" by (cases p)
  show ?case
  proof (cases "servo_move env sid (clamp_angle a) t_ms w")
    case (Done w1)
    with p Cons.IH [of w1] show ?thesis by simp
  next
    case (Raised e w1)
    show ?thesis
    proof (cases e)
      case PyException
      with Raised p Cons.IH [of "w1\<lparr>trace := trace w1 @ [Warning sid]\<rparr>"] show ?thesis
        by simp
    next
      case KeyboardInterrupt
      with Raised p show ?thesis by (simp add: outcome_def)
    qed
  qed
qed

lemma dance_after_loop:
  assumes "play env neutral_settle w = Done w1"
    and "dance_loop env fuel duration_sec t_ms (clock w1) 0 w1 = Some (Done w2)"
  shows "dance env fuel duration_sec t_ms w = Some (set_pose env NEUTRAL 800 w2)"
proof -
  have "and_then (set_pose env NEUTRAL 800 w) (sleep env 0.5) = Done w1"
    using assms(1) by (simp only: play_settle)
  then show ?thesis unfolding dance_def using assms(2) by simp
qed

lemma dance_loop_elapsed:
  "dance_loop env fuel duration_sec t_ms start_time sequence_count w = Some (Done w') \<Longrightarrow>
   duration_sec \<le> clock w' - start_time"
proof (induction fuel arbitrary: sequence_count w)
  case 0
  then show ?case by simp
next
  case (Suc fuel)
  then show ?case by (auto split: if_splits result.splits)
qed

lemma walk_program_length: "length (walk_program steps t_ms) = 3 + 4 * nat steps"
proof -
  have four: "length (keyframes (step_sequence i) t_ms) = 4" for i
    by (simp add: keyframes_def step_sequence_def LEFT_LEG_STEP_SEQUENCE_def
        RIGHT_LEG_STEP_SEQUENCE_def)
  have "length (concat (map (\<lambda>i. keyframes (step_sequence i) t_ms) [0..<n])) = 4 * n" for n
    by (induction n) (simp_all add: four)
  then show ?thesis by (simp add: walk_program_def neutral_settle_def)
qed

section \<open>The pose player\<close>

text \<open>
  C2, as the code has it. Let the duration be one that \<open>time.sleep\<close> accepts:
  \<open>t_ms / 1000 + 0.05\<close> is not negative and not above \<open>SLEEP_MAX\<close> (every positive
  duration below about 9.2e12 ms is). Then in every environment no exception derived
  from \<open>Exception\<close> leaves \<open>set_pose\<close>: a failed command and a missing handle are caught.
  And if no KeyboardInterrupt arrives from the call on, \<open>set_pose\<close> tries every servo of
  the pose in order, whether or not an earlier one failed: a servo with a handle is sent
  the move command with the angle clamped, a servo whose command failed or that has no
  handle gets a printed warning, and no other servo does; it then sleeps
  \<open>t_ms / 1000 + 0.05\<close> seconds and returns normally. It returns no value: the printed
  warnings are the only record.
\<close>

theorem set_pose_isolates_failures:
  assumes "-50 \<le> t_ms" and "real_of_int t_ms / 1000 + 0.05 \<le> SLEEP_MAX"
  shows "outcome (set_pose env pose t_ms w) \<noteq> Some PyException
       \<and> ((\<forall>n\<ge>tick w. \<not> interrupt env n) \<longrightarrow>
            (\<exists>w'. set_pose env pose t_ms w = Done w'
               \<and> trace w' = trace w @ attempts env (servos w) t_ms (tick w) pose
                            @ [Sleep (real_of_int t_ms / 1000 + 0.05)]))"
proof
  have nonneg: "0 \<le> real_of_int t_ms / 1000 + 0.05" using assms(1) by simp
  show "outcome (set_pose env pose t_ms w) \<noteq> Some PyException"
  proof (cases "dispatch env pose t_ms w")
    case (Done w1)
    then show ?thesis using nonneg assms(2)
      by (simp add: set_pose_def sleep_def outcome_def)
  next
    case (Raised e w1)
    with dispatch_no_exception [of env pose t_ms w] show ?thesis
      by (simp add: set_pose_def outcome_def)
  qed
  show "(\<forall>n\<ge>tick w. \<not> interrupt env n) \<longrightarrow>
            (\<exists>w'. set_pose env pose t_ms w = Done w'
               \<and> trace w' = trace w @ attempts env (servos w) t_ms (tick w) pose
                            @ [Sleep (real_of_int t_ms / 1000 + 0.05)])"
  proof
    assume calm: "\<forall>n\<ge>tick w. \<not> interrupt env n"
    from dispatch_trace [OF calm] obtain w1 where
      d: "dispatch env pose t_ms w = Done w1"
      and tr: "trace w1 = trace w @ attempts env (servos w) t_ms (tick w) pose"
      and t1: "tick w \<le> tick w1" by blast
    have "\<not> interrupt env (tick w1)" using calm t1 by simp
    then have "sleep env (real_of_int t_ms / 1000 + 0.05) w1 =
       Done (w1\<lparr>clock := clock w1 + (real_of_int t_ms / 1000 + 0.05) + lag env (tick w1),
                 tick := Suc (tick w1),
                 trace := trace w1 @ [Sleep (real_of_int t_ms / 1000 + 0.05)]\<rparr>)"
      using nonneg assms(2) by (simp add: sleep_def)
    with d tr show "\<exists>w'. set_pose env pose t_ms w = Done w'
               \<and> trace w' = trace w @ attempts env (servos w) t_ms (tick w) pose
                            @ [Sleep (real_of_int t_ms / 1000 + 0.05)]"
      by (simp add: set_pose_def)
  qed
qed

text \<open>
  The scenario of C2: the neutral pose (six servos) at 600 ms, where the third servo,
  the left ankle, fails. All six commands are sent, the one warning names the left
  ankle, and the wait is the full 0.65 s. And the same pose before \<open>initialize_servos\<close>,
  when no servo has a handle: six warnings, no command, and the full wait.
\<close>

theorem set_pose_isolates_failures_witness:
  "outcome (set_pose ankle_times_out NEUTRAL 600 ready) = None
   \<and> trace (final (set_pose ankle_times_out NEUTRAL 600 ready)) =
       [Move LEFT_HIP 215.3 600, Move LEFT_KNEE 123.6 600, Move LEFT_ANKLE 123.1 600,
        Warning LEFT_ANKLE, Move RIGHT_HIP 234 600, Move RIGHT_KNEE 107.3 600,
        Move RIGHT_ANKLE 177.4 600, Sleep 0.65]
   \<and> outcome (set_pose quiet NEUTRAL 600 power_on) = None
   \<and> trace (final (set_pose quiet NEUTRAL 600 power_on)) =
       [Warning LEFT_HIP, Warning LEFT_KNEE, Warning LEFT_ANKLE,
        Warning RIGHT_HIP, Warning RIGHT_KNEE, Warning RIGHT_ANKLE, Sleep 0.65]"
proof -
  have h1: "(-50::int) \<le> 600" by simp
  have h2: "real_of_int 600 / 1000 + 0.05 \<le> SLEEP_MAX" by (simp add: SLEEP_MAX_def)
  have c1: "\<forall>n\<ge>tick ready. \<not> interrupt ankle_times_out n"
    by (simp add: ankle_times_out_def quiet_def)
  have c2: "\<forall>n\<ge>tick power_on. \<not> interrupt quiet n" by (simp add: quiet_def)
  have a1: "attempts ankle_times_out (servos ready) 600 (tick ready) NEUTRAL =
       [Move LEFT_HIP 215.3 600, Move LEFT_KNEE 123.6 600, Move LEFT_ANKLE 123.1 600,
        Warning LEFT_ANKLE, Move RIGHT_HIP 234 600, Move RIGHT_KNEE 107.3 600,
        Move RIGHT_ANKLE 177.4 600]" by code_simp
  have a2: "attempts quiet (servos power_on) 600 (tick power_on) NEUTRAL =
       [Warning LEFT_HIP, Warning LEFT_KNEE, Warning LEFT_ANKLE,
        Warning RIGHT_HIP, Warning RIGHT_KNEE, Warning RIGHT_ANKLE]" by code_simp
  from set_pose_isolates_failures [OF h1 h2, of ankle_times_out NEUTRAL ready] c1
  obtain w1 where r1: "set_pose ankle_times_out NEUTRAL 600 ready = Done w1"
    and t1: "trace w1 = trace ready
               @ attempts ankle_times_out (servos ready) 600 (tick ready) NEUTRAL
               @ [Sleep (real_of_int 600 / 1000 + 0.05)]" by blast
  from set_pose_isolates_failures [OF h1 h2, of quiet NEUTRAL power_on] c2
  obtain w2 where r2: "set_pose quiet NEUTRAL 600 power_on = Done w2"
    and t2: "trace w2 = trace power_on
               @ attempts quiet (servos power_on) 600 (tick power_on) NEUTRAL
               @ [Sleep (real_of_int 600 / 1000 + 0.05)]" by blast
  from t1 have "trace w1 =
       [Move LEFT_HIP 215.3 600, Move LEFT_KNEE 123.6 600, Move LEFT_ANKLE 123.1 600,
        Warning LEFT_ANKLE, Move RIGHT_HIP 234 600, Move RIGHT_KNEE 107.3 600,
        Move RIGHT_ANKLE 177.4 600, Sleep 0.65]"
    unfolding a1 by (simp add: ready_def)
  moreover from t2 have "trace w2 =
       [Warning LEFT_HIP, Warning LEFT_KNEE, Warning LEFT_ANKLE,
        Warning RIGHT_HIP, Warning RIGHT_KNEE, Warning RIGHT_ANKLE, Sleep 0.65]"
    unfolding a2 by (simp add: power_on_def)
  ultimately show ?thesis using r1 r2 by (simp add: outcome_def final_def)
qed

text \<open>
  C2 as stated fails, in two ways. \<^verbatim>\<open>except Exception\<close> does not catch KeyboardInterrupt:
  with Ctrl-C during the third command, \<open>set_pose\<close> raises past its boundary, the last three
  servos get no command and there is no wait. And \<open>time.sleep\<close> is outside the \<open>try\<close>: with
  a duration of 1e13 ms its OverflowError leaves \<open>set_pose\<close>, after the six commands and
  with no wait.
\<close>

theorem set_pose_raises_counterexample:
  "outcome (set_pose (ctrl_c_at 2) NEUTRAL 600 ready) = Some KeyboardInterrupt
   \<and> trace (final (set_pose (ctrl_c_at 2) NEUTRAL 600 ready)) =
       [Move LEFT_HIP 215.3 600, Move LEFT_KNEE 123.6 600, Move LEFT_ANKLE 123.1 600]
   \<and> outcome (set_pose quiet NEUTRAL 10000000000000 ready) = Some PyException
   \<and> trace (final (set_pose quiet NEUTRAL 10000000000000 ready)) =
       [Move LEFT_HIP 215.3 10000000000000, Move LEFT_KNEE 123.6 10000000000000,
        Move LEFT_ANKLE 123.1 10000000000000, Move RIGHT_HIP 234 10000000000000,
        Move RIGHT_KNEE 107.3 10000000000000, Move RIGHT_ANKLE 177.4 10000000000000]"
  by code_simp

section \<open>Walking\<close>

text \<open>
  C3, as the code has it. \<open>walk\<close> is the play of \<open>walk_program\<close>: the neutral pose at
  800 ms followed by a pause of 0.5 s; then, for each index from 0 to \<open>steps - 1\<close>, the
  keyframes of the left-leg sequence when the index is even and of the right-leg
  sequence when it is odd, in order, at \<open>t_ms\<close> each; then the neutral pose at 800 ms,
  with no pause after it. Both sequences have four keyframes, so the program has
  \<open>3 + 4 * steps\<close> actions.
\<close>

theorem walk_runs_program:
  "walk env steps t_ms w = play env (walk_program steps t_ms) w
   \<and> length LEFT_LEG_STEP_SEQUENCE = 4 \<and> length RIGHT_LEG_STEP_SEQUENCE = 4
   \<and> length (walk_program steps t_ms) = 3 + 4 * nat steps"
  by (simp add: walk_plays_program walk_program_length LEFT_LEG_STEP_SEQUENCE_def
      RIGHT_LEG_STEP_SEQUENCE_def)

text \<open>
  The walk of six steps of the specification's example: 27 actions, the steps
  alternating left, right, starting with left.
\<close>

theorem walk_runs_program_witness:
  "walk quiet 6 500 ready = play quiet (walk_program 6 500) ready
   \<and> length (walk_program 6 500) = 27
   \<and> walk_program 6 500 =
       [Apply NEUTRAL 800, Pause 0.5]
       @ keyframes LEFT_LEG_STEP_SEQUENCE 500 @ keyframes RIGHT_LEG_STEP_SEQUENCE 500
       @ keyframes LEFT_LEG_STEP_SEQUENCE 500 @ keyframes RIGHT_LEG_STEP_SEQUENCE 500
       @ keyframes LEFT_LEG_STEP_SEQUENCE 500 @ keyframes RIGHT_LEG_STEP_SEQUENCE 500
       @ [Apply NEUTRAL 800]"
proof -
  have "[0..<nat 6] = [0, 1, 2, 3, 4, 5]" by code_simp
  then have "walk_program 6 500 =
       [Apply NEUTRAL 800, Pause 0.5]
       @ keyframes LEFT_LEG_STEP_SEQUENCE 500 @ keyframes RIGHT_LEG_STEP_SEQUENCE 500
       @ keyframes LEFT_LEG_STEP_SEQUENCE 500 @ keyframes RIGHT_LEG_STEP_SEQUENCE 500
       @ keyframes LEFT_LEG_STEP_SEQUENCE 500 @ keyframes RIGHT_LEG_STEP_SEQUENCE 500
       @ [Apply NEUTRAL 800]"
    by (simp add: walk_program_def neutral_settle_def step_sequence_def)
  with walk_runs_program [of quiet 6 500 ready] show ?thesis by simp
qed

text \<open>
  C3 as stated fails at the end of the walk: a walk of two steps sleeps 0.5 s once (after
  the first neutral pose) and ends with the 0.85 s wait of the last \<open>set_pose\<close>; the
  program with the extended settle at both ends sleeps 0.5 s twice.
\<close>

theorem walk_final_settle_counterexample:
  "outcome (walk quiet 2 500 ready) = None
   \<and> count_list (trace (final (walk quiet 2 500 ready))) (Sleep 0.5) = 1
   \<and> last (trace (final (walk quiet 2 500 ready))) = Sleep 0.85
   \<and> count_list (trace (final (play quiet (walk_program_spec 2 500) ready))) (Sleep 0.5) = 2"
  by code_simp

section \<open>Dancing\<close>

text \<open>
  C4. Whatever the environment, the duration, the clock and the fuel, a \<open>dance\<close> that
  ends (normally or by an exception) is the play, up to where it ended, of: the neutral
  settle, then the first \<open>k\<close> phrases of the round robin Hip Sway, Hip Circle, Hip Lift,
  Deep Hip, Hip Sway, ... with every keyframe of each at \<open>t_ms\<close>, then the neutral pose.
  Only the number \<open>k\<close> depends on the duration and the clock. The phrase the code selects
  for the counter value \<open>n + 1\<close> (by \<open>(n + 1) mod 4\<close>) is entry \<open>n mod 4\<close> of that cycle.
\<close>

theorem dance_round_robin:
  assumes "dance env fuel duration_sec t_ms w = Some r"
  shows "(\<exists>k. r = play env (neutral_settle @ dance_phrases 0 k t_ms @ [Apply NEUTRAL 800]) w)
         \<and> dance_phrase (Suc n mod 4) = dance_cycle ! (n mod 4)"
  using dance_plays [OF assms] dance_phrase_cycle by simp

text \<open>
  A dance of 4 s at 400 ms per keyframe plays two phrases: Hip Sway (1.8 s) and Hip
  Circle (2.25 s). The fifth phrase would be Hip Sway again.
\<close>

theorem dance_round_robin_witness:
  "dance quiet 2 4 400 ready
     = Some (play quiet (neutral_settle @ dance_phrases 0 2 400 @ [Apply NEUTRAL 800]) ready)
   \<and> (\<exists>k. play quiet (neutral_settle @ dance_phrases 0 2 400 @ [Apply NEUTRAL 800]) ready
          = play quiet (neutral_settle @ dance_phrases 0 k 400 @ [Apply NEUTRAL 800]) ready)
   \<and> dance_phrase (Suc 4 mod 4) = HIP_SWAY_SEQUENCE"
proof -
  have h: "dance quiet 2 4 400 ready
     = Some (play quiet (neutral_settle @ dance_phrases 0 2 400 @ [Apply NEUTRAL 800]) ready)"
    by code_simp
  from dance_round_robin [OF h, of 4] h show ?thesis by (simp add: dance_cycle_def)
qed

text \<open>
  C5, as the code has it. In every environment: what the phrase loop has done when it
  ends is the play of phrases of the round robin from their first keyframe on, stopped
  before the end of a phrase only by an exception (the time check never cuts a phrase);
  when the loop ends normally, the clock has advanced by at least \<open>duration_sec\<close> since
  the loop started, and \<open>set_pose(NEUTRAL, 800)\<close> is what follows. If moreover no
  KeyboardInterrupt arrives, no call takes less time than asked, and \<open>t_ms\<close> is not
  negative and within the range of \<open>time.sleep\<close>, then the loop does end normally (for
  every fuel from some bound on) after \<open>k\<close> whole phrases, and the neutral pose that
  follows completes.
\<close>

theorem dance_stops_at_phrase_boundary:
  "(\<forall>fuel start_time sequence_count v r.
       dance_loop env fuel duration_sec t_ms start_time sequence_count v = Some r \<longrightarrow>
         (\<exists>k. r = play env (dance_phrases sequence_count k t_ms) v)
       \<and> (\<forall>v'. r = Done v' \<longrightarrow> duration_sec \<le> clock v' - start_time))
   \<and> (\<forall>fuel w1 w2.
         play env neutral_settle w = Done w1
         \<and> dance_loop env fuel duration_sec t_ms (clock w1) 0 w1 = Some (Done w2) \<longrightarrow>
         dance env fuel duration_sec t_ms w = Some (set_pose env NEUTRAL 800 w2))
   \<and> ((\<forall>n. \<not> interrupt env n) \<and> (\<forall>n. 0 \<le> lag env n) \<and> 0 \<le> t_ms
        \<and> real_of_int t_ms / 1000 + 0.05 \<le> SLEEP_MAX \<longrightarrow>
        (\<exists>N k w1 w2 w3.
            play env neutral_settle w = Done w1
          \<and> play env (dance_phrases 0 k t_ms) w1 = Done w2
          \<and> duration_sec \<le> clock w2 - clock w1
          \<and> set_pose env NEUTRAL 800 w2 = Done w3
          \<and> (\<forall>fuel\<ge>N.
                dance_loop env fuel duration_sec t_ms (clock w1) 0 w1 = Some (Done w2)
              \<and> dance env fuel duration_sec t_ms w = Some (Done w3))))"
proof (intro conjI allI impI)
  fix fuel start_time sequence_count v r
  assume l: "dance_loop env fuel duration_sec t_ms start_time sequence_count v = Some r"
  from dance_loop_plays [OF l]
  show "\<exists>k. r = play env (dance_phrases sequence_count k t_ms) v" .
  fix v'
  assume "r = Done v'"
  with l show "duration_sec \<le> clock v' - start_time" by (simp add: dance_loop_elapsed)
next
  fix fuel w1 w2
  assume "play env neutral_settle w = Done w1
          \<and> dance_loop env fuel duration_sec t_ms (clock w1) 0 w1 = Some (Done w2)"
  then show "dance env fuel duration_sec t_ms w = Some (set_pose env NEUTRAL 800 w2)"
    by (simp add: dance_after_loop)
next
  assume "(\<forall>n. \<not> interrupt env n) \<and> (\<forall>n. 0 \<le> lag env n) \<and> 0 \<le> t_ms
        \<and> real_of_int t_ms / 1000 + 0.05 \<le> SLEEP_MAX"
  then have h: "\<forall>n. \<not> interrupt env n" "\<forall>n. 0 \<le> lag env n" "0 \<le> t_ms"
    "real_of_int t_ms / 1000 + 0.05 \<le> SLEEP_MAX" by simp_all
  from dance_calm [OF h]
  show "\<exists>N k w1 w2 w3.
            play env neutral_settle w = Done w1
          \<and> play env (dance_phrases 0 k t_ms) w1 = Done w2
          \<and> duration_sec \<le> clock w2 - clock w1
          \<and> set_pose env NEUTRAL 800 w2 = Done w3
          \<and> (\<forall>fuel\<ge>N.
                dance_loop env fuel duration_sec t_ms (clock w1) 0 w1 = Some (Done w2)
              \<and> dance env fuel duration_sec t_ms w = Some (Done w3))" .
qed

text \<open>A dance of 4 s at 400 ms per keyframe: the loop takes two phrases and 4.05 s.\<close>

theorem dance_stops_at_phrase_boundary_witness:
  "(\<exists>N k w1 w2 w3.
       play quiet neutral_settle ready = Done w1
     \<and> play quiet (dance_phrases 0 k 400) w1 = Done w2
     \<and> 4 \<le> clock w2 - clock w1
     \<and> set_pose quiet NEUTRAL 800 w2 = Done w3
     \<and> (\<forall>fuel\<ge>N.
           dance_loop quiet fuel 4 400 (clock w1) 0 w1 = Some (Done w2)
         \<and> dance quiet fuel 4 400 ready = Some (Done w3)))
   \<and> clock (final (play quiet (neutral_settle @ dance_phrases 0 2 400) ready))
       - clock (final (play quiet neutral_settle ready)) = 4.05
   \<and> (\<exists>k. the (dance_loop quiet 2 4 400 (clock (final (play quiet neutral_settle ready))) 0
                 (final (play quiet neutral_settle ready)))
          = play quiet (dance_phrases 0 k 400) (final (play quiet neutral_settle ready)))"
proof -
  have h: "(\<forall>n. \<not> interrupt quiet n) \<and> (\<forall>n. 0 \<le> lag quiet n) \<and> (0::int) \<le> 400
        \<and> real_of_int 400 / 1000 + 0.05 \<le> SLEEP_MAX"
    by (simp add: quiet_def SLEEP_MAX_def)
  have c: "clock (final (play quiet (neutral_settle @ dance_phrases 0 2 400) ready))
       - clock (final (play quiet neutral_settle ready)) = 4.05" by code_simp
  have l: "dance_loop quiet 2 4 400 (clock (final (play quiet neutral_settle ready))) 0 (final (play quiet neutral_settle ready))
       = Some (the (dance_loop quiet 2 4 400 (clock (final (play quiet neutral_settle ready))) 0
                 (final (play quiet neutral_settle ready))))"
    by code_simp
  note t = dance_stops_at_phrase_boundary [of quiet 4 400 ready]
  from t l have "\<exists>k. the (dance_loop quiet 2 4 400 (clock (final (play quiet neutral_settle ready))) 0
                 (final (play quiet neutral_settle ready)))
          = play quiet (dance_phrases 0 k 400) (final (play quiet neutral_settle ready))"
    by blast
  moreover from t h have "\<exists>N k w1 w2 w3.
       play quiet neutral_settle ready = Done w1
     \<and> play quiet (dance_phrases 0 k 400) w1 = Done w2
     \<and> 4 \<le> clock w2 - clock w1
     \<and> set_pose quiet NEUTRAL 800 w2 = Done w3
     \<and> (\<forall>fuel\<ge>N.
           dance_loop quiet fuel 4 400 (clock w1) 0 w1 = Some (Done w2)
         \<and> dance quiet fuel 4 400 ready = Some (Done w3))"
    by blast
  ultimately show ?thesis using c by blast
qed

text \<open>
  C5 as stated fails under Ctrl-C: interrupted during the second command of the second
  keyframe of Hip Sway, the phrase that has started is not played to completion, and
  \<open>dance\<close>, which has no \<open>try\<close>, is left without its return to the neutral pose.
\<close>

theorem dance_interrupted_counterexample:
  "dance (ctrl_c_at 16) 10 4 400 ready = Some (Raised KeyboardInterrupt
     \<lparr>servos = SERVO_IDS, clock = 9 / 5, tick = 17,
      trace =
        [Move LEFT_HIP 215.3 800, Move LEFT_KNEE 123.6 800, Move LEFT_ANKLE 123.1 800,
         Move RIGHT_HIP 234 800, Move RIGHT_KNEE 107.3 800, Move RIGHT_ANKLE 177.4 800,
         Sleep 0.85, Sleep 0.5,
         Move LEFT_HIP 205.3 400, Move LEFT_KNEE 133.6 400, Move LEFT_ANKLE 123.1 400,
         Move RIGHT_HIP 224 400, Move RIGHT_KNEE 117.3 400, Move RIGHT_ANKLE 177.4 400,
         Sleep 0.45,
         Move LEFT_HIP 215.3 400, Move LEFT_KNEE 123.6 400]\<rparr>)"
  by code_simp

section \<open>The session under Ctrl-C\<close>

text \<open>
  C7, as the code has it. Let the bus and the servos be initialised, let the dance be
  left by a KeyboardInterrupt, and let no further one arrive. From there the script
  does exactly this: \<open>set_pose(NEUTRAL, 800)\<close> and a pause of 0.5 s (the \<open>finally\<close> block
  of \<open>main\<close>), then \<open>set_pose(NEUTRAL, 800)\<close> once more (the handler of the top level),
  and it ends normally, whatever servo commands fail on the way.
\<close>

theorem interrupted_session_neutralizes_twice:
  assumes "LX16A_initialize env w = Done w1" and "initialize_servos env w1 = Done w2"
    and "dance env fuel 15 400 w2 = Some (Raised KeyboardInterrupt w3)"
    and "\<forall>n\<ge>tick w3. \<not> interrupt env n"
  shows "\<exists>w4 w5 w6. set_pose env NEUTRAL 800 w3 = Done w4 \<and> sleep env 0.5 w4 = Done w5
           \<and> set_pose env NEUTRAL 800 w5 = Done w6 \<and> script env fuel w = Some (Done w6)"
proof -
  have "\<exists>w4. set_pose env NEUTRAL 800 w3 = Done w4 \<and> tick w3 \<le> tick w4"
    by (rule set_pose_returns) (use assms(4) settle_sleepable in simp_all)
  then obtain w4 where
    s4: "set_pose env NEUTRAL 800 w3 = Done w4" and t4: "tick w3 \<le> tick w4" by blast
  have "\<exists>w5. sleep env 0.5 w4 = Done w5 \<and> tick w5 = Suc (tick w4)"
    by (rule sleep_returns) (use assms(4) t4 settle_sleepable in simp_all)
  then obtain w5 where
    s5: "sleep env 0.5 w4 = Done w5" and t5: "tick w5 = Suc (tick w4)" by blast
  have "\<exists>w6. set_pose env NEUTRAL 800 w5 = Done w6 \<and> tick w5 \<le> tick w6"
    by (rule set_pose_returns) (use assms(4) t4 t5 settle_sleepable in simp_all)
  then obtain w6 where s6: "set_pose env NEUTRAL 800 w5 = Done w6" by blast
  have "return_to_neutral env w3 = Done w5" using s4 s5 by (simp add: return_to_neutral_def)
  then have "main env fuel w = Some (Raised KeyboardInterrupt w5)"
    using assms(1-3) by (simp add: main_def try_finally_def)
  then have "script env fuel w = Some (Done w6)"
    using s6 by (simp add: script_def try_neutral_def)
  with s4 s5 s6 show ?thesis by blast
qed

text \<open>
  Ctrl-C during the second command of the first dance pose, with the right knee failing
  from then on: what follows the interrupt is two neutral poses, each with a warning for
  the right knee, and the script ends normally.
\<close>

theorem interrupted_session_neutralizes_twice_witness:
  "(\<exists>w6. script ctrl_c_then_knee_fault 100 power_on = Some (Done w6))
   \<and> drop 17 (trace (final (the (script ctrl_c_then_knee_fault 100 power_on)))) =
       [Move LEFT_HIP 215.3 800, Move LEFT_KNEE 123.6 800, Move LEFT_ANKLE 123.1 800,
        Move RIGHT_HIP 234 800, Move RIGHT_KNEE 107.3 800, Warning RIGHT_KNEE,
        Move RIGHT_ANKLE 177.4 800, Sleep 0.85, Sleep 0.5,
        Move LEFT_HIP 215.3 800, Move LEFT_KNEE 123.6 800, Move LEFT_ANKLE 123.1 800,
        Move RIGHT_HIP 234 800, Move RIGHT_KNEE 107.3 800, Warning RIGHT_KNEE,
        Move RIGHT_ANKLE 177.4 800, Sleep 0.85]"
proof -
  let ?env = ctrl_c_then_knee_fault
  let ?w1 = "final (LX16A_initialize ?env power_on)"
  let ?w2 = "final (initialize_servos ?env ?w1)"
  let ?w3 = "final (the (dance ?env 100 15 400 ?w2))"
  have h1: "LX16A_initialize ?env power_on = Done ?w1" by code_simp
  have h2: "initialize_servos ?env ?w1 = Done ?w2" by code_simp
  have h3: "dance ?env 100 15 400 ?w2 = Some (Raised KeyboardInterrupt ?w3)" by code_simp
  have "tick ?w3 = 17" by code_simp
  then have h4: "\<forall>n\<ge>tick ?w3. \<not> interrupt ?env n"
    by (simp add: ctrl_c_then_knee_fault_def quiet_def)
  have tr: "drop 17 (trace (final (the (script ?env 100 power_on)))) =
       [Move LEFT_HIP 215.3 800, Move LEFT_KNEE 123.6 800, Move LEFT_ANKLE 123.1 800,
        Move RIGHT_HIP 234 800, Move RIGHT_KNEE 107.3 800, Warning RIGHT_KNEE,
        Move RIGHT_ANKLE 177.4 800, Sleep 0.85, Sleep 0.5,
        Move LEFT_HIP 215.3 800, Move LEFT_KNEE 123.6 800, Move LEFT_ANKLE 123.1 800,
        Move RIGHT_HIP 234 800, Move RIGHT_KNEE 107.3 800, Warning RIGHT_KNEE,
        Move RIGHT_ANKLE 177.4 800, Sleep 0.85]"
    by code_simp
  from interrupted_session_neutralizes_twice [OF h1 h2 h3 h4]
  have "\<exists>w6. script ?env 100 power_on = Some (Done w6)" by blast
  with tr show ?thesis by simp
qed

text \<open>
  C7 as stated fails: with Ctrl-C during the second command of the first dance pose,
  that pose is abandoned (four servos get no command, its wait does not happen), and
  the neutral pose is then commanded twice, not once.
\<close>

theorem interrupted_session_counterexample:
  "script (ctrl_c_at 16) 100 power_on = Some (Done
    \<lparr>servos = SERVO_IDS, clock = 71 / 20, tick = 32,
       trace =
         [Connect, Attach LEFT_ANKLE, Attach LEFT_KNEE, Attach LEFT_HIP, Attach RIGHT_ANKLE,
          Attach RIGHT_KNEE, Attach RIGHT_HIP,
          Move LEFT_HIP 215.3 800, Move LEFT_KNEE 123.6 800, Move LEFT_ANKLE 123.1 800,
          Move RIGHT_HIP 234 800, Move RIGHT_KNEE 107.3 800, Move RIGHT_ANKLE 177.4 800,
          Sleep 0.85, Sleep 0.5,
          Move LEFT_HIP 205.3 400, Move LEFT_KNEE 133.6 400,
          Move LEFT_HIP 215.3 800, Move LEFT_KNEE 123.6 800, Move LEFT_ANKLE 123.1 800,
          Move RIGHT_HIP 234 800, Move RIGHT_KNEE 107.3 800, Move RIGHT_ANKLE 177.4 800,
          Sleep 0.85, Sleep 0.5,
          Move LEFT_HIP 215.3 800, Move LEFT_KNEE 123.6 800, Move LEFT_ANKLE 123.1 800,
          Move RIGHT_HIP 234 800, Move RIGHT_KNEE 107.3 800, Move RIGHT_ANKLE 177.4 800,
          Sleep 0.85]\<rparr>)"
  by code_simp

end
